theory Spec2Isabelle
  imports Main "HOL-Library.List_Lexorder" "HOL-Library.Char_ord"
begin

section \<open>The podcast crawler of \<open>spotify_api.py\<close>\<close>

text \<open>
  A shallow embedding of \<open>src/spotify_api/spotify_api.py\<close>: the prefix generator, the
  retrying fetch, the pagination loop of one query, the two tables of the SQLite
  database and the dispatch of all queries.  Python strings are \<open>string\<close>, Python
  integers are \<open>int\<close>, exceptions are the left summand of a result.
\<close>

subsection \<open>Strings\<close>

text \<open>\<open>sep.join(xs)\<close> on a list of strings.\<close>

fun join :: "string \<Rightarrow> string list \<Rightarrow> string" where
  "join sep [] = []"
| "join sep [x] = x"
| "join sep (x # y # ys) = x @ sep @ join sep (y # ys)"

text \<open>Iterating over a Python string gives its characters as strings of length one.\<close>

definition str_iter :: "string \<Rightarrow> string list" where
  "str_iter s = map (\<lambda>c. [c]) s"

subsection \<open>The query enumerator\<close>

text \<open>
  \<open>itertools.product(*iterables, repeat=n)\<close>, as the Python documentation defines it:
  \<^verbatim>\<open>
    pools = [tuple(pool) for pool in iterables] * repeat
    result = [[]]
    for pool in pools:
        result = [x+[y] for x in result for y in pool]
  \<close>
  The pools are passed already repeated.
\<close>

definition itertools_product :: "'a list list \<Rightarrow> 'a list list" where
  "itertools_product pools =
     fold (\<lambda>pool result. [x @ [y]. x \<leftarrow> result, y \<leftarrow> pool]) pools [[]]"

text \<open>
  \<^verbatim>\<open>
  def generate_prefixes():
      prefixes = ["".join(p) for p in itertools.product("abcdefghijklmnopqrstuvwxyz", repeat=3)]
      return prefixes
  \<close>
\<close>

definition generate_prefixes :: "string list" where
  "generate_prefixes =
     [join [] p. p \<leftarrow> itertools_product (replicate 3 (str_iter ''abcdefghijklmnopqrstuvwxyz''))]"

subsection \<open>Python values and exceptions\<close>

text \<open>
  The exceptions that the modelled code can raise.  \<open>Sqlite3Error\<close> stands for every
  error of the \<open>sqlite3\<close> module, \<open>SpotifyException\<close> and \<open>OtherException\<close> for
  whatever the remote call raises.  All of them are subclasses of \<open>Exception\<close>.
\<close>

datatype exn =
  TypeError | AttributeError | IndexError | KeyError | OverflowError
| Sqlite3Error | SpotifyException | OtherException string

type_synonym 'a result = "exn + 'a"

definition bind_result :: "'a result \<Rightarrow> ('a \<Rightarrow> 'b result) \<Rightarrow> 'b result" where
  "bind_result r f = (case r of Inl e \<Rightarrow> Inl e | Inr v \<Rightarrow> f v)"

text \<open>
  The values that a decoded JSON response is made of: \<open>None\<close>, booleans, integers,
  strings, lists and dictionaries.  A dictionary is the list of its items in insertion
  order; its keys are strings, each occurring once.  Floating point numbers are left out.
\<close>

datatype json =
  JNull | JBool bool | JInt int | JStr string | JList "json list" | JDict "(string \<times> json) list"

type_synonym pydict = "(string \<times> json) list"

text \<open>\<open>d.get(k, default)\<close> on a dictionary.\<close>

definition dict_get :: "pydict \<Rightarrow> string \<Rightarrow> json \<Rightarrow> json" where
  "dict_get d k dflt = (case map_of d k of None \<Rightarrow> dflt | Some v \<Rightarrow> v)"

text \<open>\<open>v.get(k, default)\<close> on any value: only a dictionary has the method.\<close>

fun py_get :: "json \<Rightarrow> string \<Rightarrow> json \<Rightarrow> json result" where
  "py_get (JDict d) k dflt = Inr (dict_get d k dflt)"
| "py_get v k dflt = Inl AttributeError"

text \<open>\<open>bool(v)\<close>, the test of \<open>if v\<close> and \<open>if not v\<close>.\<close>

fun truthy :: "json \<Rightarrow> bool" where
  "truthy JNull = False"
| "truthy (JBool b) = b"
| "truthy (JInt n) = (n \<noteq> 0)"
| "truthy (JStr s) = (s \<noteq> [])"
| "truthy (JList xs) = (xs \<noteq> [])"
| "truthy (JDict d) = (d \<noteq> [])"

text \<open>
  \<open>iter(v)\<close>, as a \<open>for\<close> loop and \<open>str.join\<close> take it: the elements of a list, the
  characters of a string, the keys of a dictionary; anything else is not iterable.
\<close>

fun iter_json :: "json \<Rightarrow> json list result" where
  "iter_json (JList xs) = Inr xs"
| "iter_json (JStr s) = Inr (map JStr (str_iter s))"
| "iter_json (JDict d) = Inr (map (\<lambda>kv. JStr (fst kv)) d)"
| "iter_json v = Inl TypeError"

fun is_JStr :: "json \<Rightarrow> bool" where
  "is_JStr (JStr s) = True"
| "is_JStr v = False"

fun the_JStr :: "json \<Rightarrow> string" where
  "the_JStr (JStr s) = s"
| "the_JStr v = []"

text \<open>\<open>sep.join(v)\<close>: every element of the iterable must be a string.\<close>

definition str_join :: "string \<Rightarrow> json \<Rightarrow> string result" where
  "str_join sep v =
     bind_result (iter_json v) (\<lambda>xs.
       if list_all is_JStr xs then Inr (join sep (map the_JStr xs)) else Inl TypeError)"

text \<open>\<open>v[0]\<close>.  The keys of a decoded JSON dictionary are strings, so \<open>0\<close> is never a key.\<close>

fun subscript0 :: "json \<Rightarrow> json result" where
  "subscript0 (JList []) = Inl IndexError"
| "subscript0 (JList (x # xs)) = Inr x"
| "subscript0 (JStr []) = Inl IndexError"
| "subscript0 (JStr (c # cs)) = Inr (JStr [c])"
| "subscript0 (JDict d) = Inl KeyError"
| "subscript0 v = Inl TypeError"

subsection \<open>The database\<close>

text \<open>
  The values SQLite stores for the parameters the code binds.  The \<open>sqlite3\<close> module
  binds \<open>None\<close>, integers (booleans are integers) and strings; it raises for a list or a
  dictionary, and \<open>OverflowError\<close> for an integer outside 64 bits.  The conversions of
  SQLite's column affinities are not modelled.
\<close>

datatype sql_value = SNull | SInt int | SText string

fun bind_parameter :: "json \<Rightarrow> sql_value result" where
  "bind_parameter JNull = Inr SNull"
| "bind_parameter (JBool b) = Inr (SInt (if b then 1 else 0))"
| "bind_parameter (JInt n) =
     (if - (2 ^ 63) \<le> n \<and> n < 2 ^ 63 then Inr (SInt n) else Inl OverflowError)"
| "bind_parameter (JStr s) = Inr (SText s)"
| "bind_parameter v = Inl Sqlite3Error"

fun bind_parameters :: "json list \<Rightarrow> sql_value list result" where
  "bind_parameters [] = Inr []"
| "bind_parameters (v # vs) =
     bind_result (bind_parameter v) (\<lambda>x.
     bind_result (bind_parameters vs) (\<lambda>xs. Inr (x # xs)))"

text \<open>
  The two tables of \<open>init_db\<close>.  A row of \<open>podcasts\<close> is the list of its fourteen
  values, in the order of the column list of the \<open>INSERT\<close> statement, which is the order
  of \<open>CREATE TABLE\<close> but for the last two.  \<open>query_progress\<close> maps a query to its
  \<open>completed\<close> value.
\<close>

type_synonym row = "sql_value list"

record db =
  podcasts :: "row list"
  query_progress :: "string \<rightharpoonup> sql_value"

definition podcasts_columns :: "string list" where
  "podcasts_columns =
     [''id'', ''name'', ''description'', ''publisher'', ''total_episodes'', ''explicit'',
      ''media_type'', ''available_markets'', ''languages'', ''image_url'', ''external_url'',
      ''href'', ''recorded_countries'', ''market'']"

definition column :: "string \<Rightarrow> row \<Rightarrow> sql_value" where
  "column c r = (case map_of (zip podcasts_columns r) c of None \<Rightarrow> SNull | Some v \<Rightarrow> v)"

text \<open>
  \<open>INSERT OR REPLACE\<close> on a table whose primary key is the column \<open>id TEXT PRIMARY KEY\<close>:
  the rows whose key equals the new key are deleted and the new row is appended.  SQL
  equality never holds for \<open>NULL\<close>, and SQLite accepts \<open>NULL\<close> in such a key, so a row
  with a \<open>NULL\<close> key replaces nothing.
\<close>

definition sql_eq :: "sql_value \<Rightarrow> sql_value \<Rightarrow> bool" where
  "sql_eq a b = (a \<noteq> SNull \<and> b \<noteq> SNull \<and> a = b)"

definition insert_or_replace :: "row \<Rightarrow> row list \<Rightarrow> row list" where
  "insert_or_replace r tbl =
     filter (\<lambda>x. \<not> sql_eq (column ''id'' x) (column ''id'' r)) tbl @ [r]"

text \<open>
  \<^verbatim>\<open>
  ", ".join(podcast_data.get(key, [])) if podcast_data.get(key) else None
  \<close>
\<close>

definition joined_or_none :: "pydict \<Rightarrow> string \<Rightarrow> json result" where
  "joined_or_none podcast_data key =
     (if truthy (dict_get podcast_data key JNull)
      then bind_result (str_join '', '' (dict_get podcast_data key (JList []))) (\<lambda>s. Inr (JStr s))
      else Inr JNull)"

text \<open>
  The tuple of parameters of \<open>save_podcast\<close>, evaluated from left to right; the first
  exception ends the evaluation.
\<close>

definition save_podcast_parameters :: "pydict \<Rightarrow> json list result" where
  "save_podcast_parameters podcast_data =
     bind_result (joined_or_none podcast_data ''available_markets'') (\<lambda>available_markets.
     bind_result (joined_or_none podcast_data ''languages'') (\<lambda>languages.
     bind_result (bind_result (subscript0 (dict_get podcast_data ''images'' (JList [JDict []])))
                    (\<lambda>image. py_get image ''url'' JNull)) (\<lambda>image_url.
     bind_result (py_get (dict_get podcast_data ''external_urls'' (JDict [])) ''spotify'' JNull)
       (\<lambda>external_url.
     bind_result (joined_or_none podcast_data ''available_markets'') (\<lambda>recorded_countries.
     Inr [dict_get podcast_data ''id'' JNull,
          dict_get podcast_data ''name'' JNull,
          dict_get podcast_data ''description'' JNull,
          dict_get podcast_data ''publisher'' JNull,
          dict_get podcast_data ''total_episodes'' JNull,
          dict_get podcast_data ''explicit'' JNull,
          dict_get podcast_data ''media_type'' JNull,
          available_markets,
          languages,
          image_url,
          external_url,
          dict_get podcast_data ''href'' JNull,
          recorded_countries,
          dict_get podcast_data ''market'' (JStr ''US'')])))))"

text \<open>
  \<open>DatabaseManager.save_podcast\<close>: an exception leaves the database as it was (nothing
  was executed, or the connection's context manager rolls back).
\<close>

definition save_podcast :: "pydict \<Rightarrow> db \<Rightarrow> unit result \<times> db" where
  "save_podcast podcast_data d =
     (case bind_result (save_podcast_parameters podcast_data) bind_parameters of
        Inl e \<Rightarrow> (Inl e, d)
      | Inr r \<Rightarrow> (Inr (), d\<lparr>podcasts := insert_or_replace r (podcasts d)\<rparr>))"

text \<open>\<open>bool(result[0])\<close> for a value read back from the \<open>completed\<close> column.\<close>

fun sql_truthy :: "sql_value \<Rightarrow> bool" where
  "sql_truthy SNull = False"
| "sql_truthy (SInt n) = (n \<noteq> 0)"
| "sql_truthy (SText s) = (s \<noteq> [])"

text \<open>
  \<open>DatabaseManager.is_query_completed\<close>: \<open>bool(result and result[0])\<close>, where \<open>result\<close>
  is the row found for the query, or \<open>None\<close>.
\<close>

definition is_query_completed :: "string \<Rightarrow> db \<Rightarrow> bool" where
  "is_query_completed query d =
     (case query_progress d query of None \<Rightarrow> False | Some completed \<Rightarrow> sql_truthy completed)"

text \<open>\<open>DatabaseManager.mark_query_completed\<close>: \<open>INSERT OR REPLACE\<close> of \<open>(query, True)\<close>.\<close>

definition mark_query_completed :: "string \<Rightarrow> db \<Rightarrow> unit result \<times> db" where
  "mark_query_completed query d =
     (Inr (), d\<lparr>query_progress := (query_progress d)(query \<mapsto> SInt 1)\<rparr>)"

subsection \<open>The collaborators of a query\<close>

text \<open>
  \<open>process_query(query, spotify_client, db_manager)\<close> is handed its two collaborators.
  It uses one method of the client and two of the database manager; each may raise,
  and each may change the world \<open>'w\<close> it lives in.  The arguments of \<open>client_search\<close> are
  \<open>q\<close>, \<open>limit\<close> and \<open>offset\<close>; \<open>type="show"\<close> and \<open>market="US"\<close> are fixed.
\<close>

record 'w collaborators =
  client_search :: "string \<Rightarrow> int \<Rightarrow> int \<Rightarrow> 'w \<Rightarrow> json result \<times> 'w"
  db_save_podcast :: "pydict \<Rightarrow> 'w \<Rightarrow> unit result \<times> 'w"
  db_mark_query_completed :: "string \<Rightarrow> 'w \<Rightarrow> unit result \<times> 'w"

text \<open>
  The calls made, in the order they are made: the remote search (once per attempt),
  \<open>fetch_data\<close> (once per page asked for), \<open>save_podcast\<close> (with \<open>True\<close> when it returned
  and \<open>False\<close> when it raised) and \<open>mark_query_completed\<close>.  The list is an observation
  of the run, not a part of the program's state.
\<close>

datatype call =
  Search string int int
| FetchData string int
| SavePodcast pydict bool
| MarkQueryCompleted string

subsection \<open>The retrying fetcher\<close>

definition max_tries :: nat where
  "max_tries = 5"

text \<open>
  Modelled from the spec: the retry loop of the decorator
  \<open>backoff.on_exception(backoff.expo, (SpotifyException, Exception), max_tries=5)\<close>, whose
  code is in the \<open>backoff\<close> package and not in this repository.  The decorated function is
  called again after any exception until it returns or has been called \<open>max_tries\<close>
  times; the exception of the last call is then raised.  The waiting between two calls
  is not modelled.  The body is that of \<open>fetch_data\<close>:
  \<^verbatim>\<open>
  def fetch_data(spotify_client, query, offset, limit=50):
      return spotify_client.search(q=query, type="show", market="US", limit=limit, offset=offset)
  \<close>
  \<open>tries\<close> counts the calls already made.
\<close>

function fetch_data_from ::
  "nat \<Rightarrow> 'w collaborators \<Rightarrow> string \<Rightarrow> int \<Rightarrow> int \<Rightarrow> 'w \<Rightarrow> json result \<times> 'w \<times> call list" where
  "fetch_data_from tries C query offset limit w =
     (case client_search C query limit offset w of
        (Inr results, w1) \<Rightarrow> (Inr results, w1, [Search query limit offset])
      | (Inl e, w1) \<Rightarrow>
          if max_tries \<le> Suc tries then (Inl e, w1, [Search query limit offset])
          else (case fetch_data_from (Suc tries) C query offset limit w1 of
                  (r, w2, calls) \<Rightarrow> (r, w2, Search query limit offset # calls)))"
  by pat_completeness auto
termination
  by (relation "measure (\<lambda>(tries, C, query, offset, limit, w). max_tries - tries)") auto

declare fetch_data_from.simps [simp del]

definition fetch_data ::
  "'w collaborators \<Rightarrow> string \<Rightarrow> int \<Rightarrow> int \<Rightarrow> 'w \<Rightarrow> json result \<times> 'w \<times> call list" where
  "fetch_data C query offset limit w = fetch_data_from 0 C query offset limit w"

subsection \<open>Processing one query\<close>

text \<open>
  The dictionary built for one show.  Each of the twelve \<open>show.get\<close> raises when
  \<open>show\<close> is not a dictionary.
\<close>

fun podcast_data_of :: "json \<Rightarrow> pydict result" where
  "podcast_data_of (JDict show) =
     Inr [(''id'', dict_get show ''id'' JNull),
          (''name'', dict_get show ''name'' JNull),
          (''description'', dict_get show ''description'' JNull),
          (''publisher'', dict_get show ''publisher'' JNull),
          (''total_episodes'', dict_get show ''total_episodes'' JNull),
          (''explicit'', dict_get show ''explicit'' JNull),
          (''media_type'', dict_get show ''media_type'' JNull),
          (''available_markets'', dict_get show ''available_markets'' JNull),
          (''languages'', dict_get show ''languages'' JNull),
          (''images'', dict_get show ''images'' JNull),
          (''external_urls'', dict_get show ''external_urls'' JNull),
          (''href'', dict_get show ''href'' JNull),
          (''market'', JStr ''US'')]"
| "podcast_data_of v = Inl AttributeError"

text \<open>
  The body of \<open>for show in shows\<close>, over the elements still to come.  It returns the
  exception that ended it, if any, and \<open>total_podcasts\<close>.
\<close>

fun save_shows ::
  "'w collaborators \<Rightarrow> json list \<Rightarrow> int \<Rightarrow> 'w \<Rightarrow> unit result \<times> int \<times> 'w \<times> call list" where
  "save_shows C [] total_podcasts w = (Inr (), total_podcasts, w, [])"
| "save_shows C (show # shows) total_podcasts w =
     (case podcast_data_of show of
        Inl e \<Rightarrow> (Inl e, total_podcasts, w, [])
      | Inr podcast_data \<Rightarrow>
          (case db_save_podcast C podcast_data w of
             (Inl e, w1) \<Rightarrow> (Inl e, total_podcasts, w1, [SavePodcast podcast_data False])
           | (Inr u, w1) \<Rightarrow>
               (case save_shows C shows (total_podcasts + 1) w1 of
                  (r, n, w2, calls) \<Rightarrow> (r, n, w2, SavePodcast podcast_data True # calls))))"

text \<open>
  One turn of the \<open>try\<close> block after the fetch: \<open>results.get("shows", {}).get("items", [])\<close>,
  the test \<open>if not shows\<close> and the \<open>for\<close> loop.  \<open>Inr False\<close> is the \<open>break\<close> on an empty
  page, \<open>Inr True\<close> the normal end of the block.
\<close>

definition save_page ::
  "'w collaborators \<Rightarrow> json \<Rightarrow> int \<Rightarrow> 'w \<Rightarrow> bool result \<times> int \<times> 'w \<times> call list" where
  "save_page C results total_podcasts w =
     (case bind_result (py_get results ''shows'' (JDict [])) (\<lambda>s. py_get s ''items'' (JList [])) of
        Inl e \<Rightarrow> (Inl e, total_podcasts, w, [])
      | Inr shows \<Rightarrow>
          if \<not> truthy shows then (Inr False, total_podcasts, w, [])
          else (case iter_json shows of
                  Inl e \<Rightarrow> (Inl e, total_podcasts, w, [])
                | Inr items \<Rightarrow>
                    (case save_shows C items total_podcasts w of
                       (Inl e, n, w1, calls) \<Rightarrow> (Inl e, n, w1, calls)
                     | (Inr u, n, w1, calls) \<Rightarrow> (Inr True, n, w1, calls))))"

definition limit :: int where
  "limit = 50"

text \<open>
  The loop \<open>while offset < 1000\<close>.  \<open>except Exception\<close> catches what the fetch, the
  reading of the page and the saving raise, and leaves the loop, as the \<open>break\<close> on an
  empty page does.
\<close>

function process_query_loop ::
  "'w collaborators \<Rightarrow> string \<Rightarrow> int \<Rightarrow> int \<Rightarrow> 'w \<Rightarrow> int \<times> 'w \<times> call list" where
  "process_query_loop C query offset total_podcasts w =
     (if offset < 1000 then
        (case fetch_data C query offset limit w of
           (Inl e, w1, calls1) \<Rightarrow> (total_podcasts, w1, FetchData query offset # calls1)
         | (Inr results, w1, calls1) \<Rightarrow>
             (case save_page C results total_podcasts w1 of
                (Inr True, n, w2, calls2) \<Rightarrow>
                  (case process_query_loop C query (offset + limit) n w2 of
                     (m, w3, calls3) \<Rightarrow> (m, w3, FetchData query offset # calls1 @ calls2 @ calls3))
              | (r, n, w2, calls2) \<Rightarrow> (n, w2, FetchData query offset # calls1 @ calls2)))
      else (total_podcasts, w, []))"
  by pat_completeness auto
termination
  by (relation "measure (\<lambda>(C, query, offset, total_podcasts, w). nat (1000 - offset))")
     (auto simp: limit_def)

declare process_query_loop.simps [simp del]

text \<open>
  \<open>process_query\<close>: the loop from offset 0, then \<open>mark_query_completed\<close>, then the
  return of \<open>total_podcasts\<close>.  An exception of \<open>mark_query_completed\<close> is not caught.
\<close>

definition process_query :: "'w collaborators \<Rightarrow> string \<Rightarrow> 'w \<Rightarrow> int result \<times> 'w \<times> call list" where
  "process_query C query w =
     (case process_query_loop C query 0 0 w of
        (total_podcasts, w1, calls) \<Rightarrow>
          (case db_mark_query_completed C query w1 of
             (Inl e, w2) \<Rightarrow> (Inl e, w2, calls @ [MarkQueryCompleted query])
           | (Inr u, w2) \<Rightarrow> (Inr total_podcasts, w2, calls @ [MarkQueryCompleted query])))"

subsection \<open>All queries\<close>

text \<open>
  \<open>executor.map(lambda q: process_query(q, spotify_client, db_manager), queries)\<close> and
  \<open>list\<close> of it, in the schedule of one worker: the queries one after the other, in
  their order.  Every query of the list is submitted; the first exception of a
  \<open>process_query\<close> is raised when the results are collected.
\<close>

fun run_queries :: "'w collaborators \<Rightarrow> string list \<Rightarrow> 'w \<Rightarrow> int list result \<times> 'w \<times> call list" where
  "run_queries C [] w = (Inr [], w, [])"
| "run_queries C (q # queries) w =
     (case process_query C q w of
        (Inl e, w1, calls1) \<Rightarrow> (Inl e, w1, calls1)
      | (Inr n, w1, calls1) \<Rightarrow>
          (case run_queries C queries w1 of
             (Inl e, w2, calls2) \<Rightarrow> (Inl e, w2, calls1 @ calls2)
           | (Inr ns, w2, calls2) \<Rightarrow> (Inr (n # ns), w2, calls1 @ calls2)))"

text \<open>\<open>main\<close>, after the database manager and the client have been made.\<close>

definition main :: "'w collaborators \<Rightarrow> 'w \<Rightarrow> int result \<times> 'w \<times> call list" where
  "main C w =
     (case run_queries C generate_prefixes w of
        (Inl e, w1, calls) \<Rightarrow> (Inl e, w1, calls)
      | (Inr results, w1, calls) \<Rightarrow> (Inr (sum_list results), w1, calls))"

text \<open>
  The collaborators of \<open>main\<close>: a client, given by its \<open>search\<close> on its own state, and
  the \<open>DatabaseManager\<close> on the database.
\<close>

definition with_database ::
  "(string \<Rightarrow> int \<Rightarrow> int \<Rightarrow> 'c \<Rightarrow> json result \<times> 'c) \<Rightarrow> ('c \<times> db) collaborators" where
  "with_database search =
     \<lparr> client_search = (\<lambda>q lim off (c, d). case search q lim off c of (r, c1) \<Rightarrow> (r, (c1, d))),
       db_save_podcast = (\<lambda>podcast_data (c, d).
          case save_podcast podcast_data d of (r, d1) \<Rightarrow> (r, (c, d1))),
       db_mark_query_completed = (\<lambda>query (c, d).
          case mark_query_completed query d of (r, d1) \<Rightarrow> (r, (c, d1))) \<rparr>"

subsection \<open>Reading the list of calls\<close>

fun fetch_offsets :: "call list \<Rightarrow> int list" where
  "fetch_offsets [] = []"
| "fetch_offsets (FetchData query offset # calls) = offset # fetch_offsets calls"
| "fetch_offsets (c # calls) = fetch_offsets calls"

fun marked_queries :: "call list \<Rightarrow> string list" where
  "marked_queries [] = []"
| "marked_queries (MarkQueryCompleted query # calls) = query # marked_queries calls"
| "marked_queries (c # calls) = marked_queries calls"

fun failed_saves :: "call list \<Rightarrow> pydict list" where
  "failed_saves [] = []"
| "failed_saves (SavePodcast podcast_data False # calls) = podcast_data # failed_saves calls"
| "failed_saves (c # calls) = failed_saves calls"

fun search_offsets :: "call list \<Rightarrow> int list" where
  "search_offsets [] = []"
| "search_offsets (Search query lim offset # calls) = offset # search_offsets calls"
| "search_offsets (c # calls) = search_offsets calls"

fun successful_saves :: "call list \<Rightarrow> pydict list" where
  "successful_saves [] = []"
| "successful_saves (SavePodcast podcast_data True # calls) = podcast_data # successful_saves calls"
| "successful_saves (c # calls) = successful_saves calls"

text \<open>
  \<open>failure_ends calls\<close>: no save failed, or the one that failed is the last call of the
  list.
\<close>

definition failure_ends :: "call list \<Rightarrow> bool" where
  "failure_ends calls =
     (failed_saves calls = [] \<or>
      (\<exists>pre pd. calls = pre @ [SavePodcast pd False] \<and> failed_saves pre = []))"

subsection \<open>Example data and test doubles\<close>

text \<open>An empty database, and two versions of one show.\<close>

definition empty_db :: db where
  "empty_db = \<lparr>podcasts = [], query_progress = Map.empty\<rparr>"

definition show_one :: pydict where
  "show_one =
     [(''id'', JStr ''show1''), (''name'', JStr ''First''),
      (''available_markets'', JList [JStr ''US'', JStr ''GB'']),
      (''images'', JList [JDict [(''url'', JStr ''http://img/1'')]]),
      (''external_urls'', JDict [(''spotify'', JStr ''http://open/1'')])]"

definition show_one_renamed :: pydict where
  "show_one_renamed =
     [(''id'', JStr ''show1''), (''name'', JStr ''Second''),
      (''images'', JList [JDict []]),
      (''external_urls'', JDict [])]"

text \<open>
  A client whose \<open>search\<close> raises the exceptions of \<open>failures\<close>, one per call, and
  returns \<open>page\<close> from then on.  Its world is the number of calls made so far.  The
  database methods of the test doubles return at once.
\<close>

definition flaky_search :: "exn list \<Rightarrow> json \<Rightarrow> string \<Rightarrow> int \<Rightarrow> int \<Rightarrow> nat \<Rightarrow> json result \<times> nat" where
  "flaky_search failures page q lim off n =
     (if n < length failures then Inl (failures ! n) else Inr page, Suc n)"

definition flaky_client :: "exn list \<Rightarrow> json \<Rightarrow> nat collaborators" where
  "flaky_client failures page =
     \<lparr> client_search = flaky_search failures page,
       db_save_podcast = (\<lambda>podcast_data w. (Inr (), w)),
       db_mark_query_completed = (\<lambda>query w. (Inr (), w)) \<rparr>"

text \<open>
  A response with the given items, and a client that returns \<open>items\<close> for every offset
  below \<open>bound\<close> and an empty page from \<open>bound\<close> on.
\<close>

definition page_of :: "json list \<Rightarrow> json" where
  "page_of items = JDict [(''shows'', JDict [(''items'', JList items)])]"

definition paging_search :: "int \<Rightarrow> json list \<Rightarrow> string \<Rightarrow> int \<Rightarrow> int \<Rightarrow> unit \<Rightarrow> json result \<times> unit" where
  "paging_search bound items q lim off w = (Inr (page_of (if off < bound then items else [])), w)"




text \<open>
  A database manager whose \<open>save_podcast\<close> always raises, as when the database file
  cannot be written.
\<close>

definition failing_store_client :: "unit collaborators" where
  "failing_store_client =
     \<lparr> client_search = paging_search 50 [JDict show_one],
       db_save_podcast = (\<lambda>podcast_data w. (Inl Sqlite3Error, w)),
       db_mark_query_completed = (\<lambda>query w. (Inr (), w)) \<rparr>"

text \<open>
  A database manager whose \<open>save_podcast\<close> returns \<open>k\<close> times and raises from then on;
  its world is the number of saves asked for.  The client returns \<open>items\<close> at offset 0.
\<close>

definition store_failing_from :: "nat \<Rightarrow> json list \<Rightarrow> nat collaborators" where
  "store_failing_from k items =
     \<lparr> client_search = (\<lambda>q lim off n. (Inr (page_of (if off < 50 then items else [])), n)),
       db_save_podcast = (\<lambda>podcast_data n. (if n < k then Inr () else Inl Sqlite3Error, Suc n)),
       db_mark_query_completed = (\<lambda>query n. (Inr (), n)) \<rparr>"

text \<open>
  A database in which the query \<open>abc\<close> is marked completed and one show is stored, and
  a show that has no images and no external URLs.
\<close>

definition completed_db :: db where
  "completed_db =
     \<lparr> podcasts = [[SText ''show1'', SText ''First'', SNull, SNull, SNull, SNull, SNull,
          SText ''US, GB'', SNull, SText ''http://img/1'', SText ''http://open/1'',
          SNull, SText ''US, GB'', SText ''US'']],
       query_progress = [''abc'' \<mapsto> SInt 1] \<rparr>"

definition show_without_images :: pydict where
  "show_without_images = [(''id'', JStr ''show2''), (''name'', JStr ''Plain'')]"

text \<open>Three shows, the last of which cannot be saved, and two shows without an identifier.\<close>

definition three_shows :: "json list" where
  "three_shows = [JDict show_one, JDict show_one_renamed, JDict show_without_images]"

definition show_without_id :: pydict where
  "show_without_id =
     [(''name'', JStr ''Nameless''), (''images'', JList [JDict []]), (''external_urls'', JDict [])]"

definition show_without_id_renamed :: pydict where
  "show_without_id_renamed =
     [(''name'', JStr ''Renamed''), (''images'', JList [JDict []]), (''external_urls'', JDict [])]"

section \<open>Properties\<close>

subsection \<open>The query enumerator\<close>

lemma product_Nil: "itertools_product [] = [[]]"
  by (simp add: itertools_product_def)

lemma product_replicate_Suc:
  "itertools_product (replicate (Suc n) A) =
     [x @ [y]. x \<leftarrow> itertools_product (replicate n A), y \<leftarrow> A]"
proof -
  have "replicate (Suc n) A = replicate n A @ [A]"
    by (simp add: replicate_append_same)
  then show ?thesis
    unfolding itertools_product_def by (simp only: fold_append comp_apply fold.simps id_apply)
qed

lemma length_product_step:
  "length (concat (map (\<lambda>x. map (\<lambda>y. x @ [y]) A) R)) = length R * length A"
  by (induction R) simp_all

lemma length_product_replicate: "length (itertools_product (replicate n A)) = length A ^ n"
proof (induction n)
  case 0
  show ?case by (simp add: product_Nil)
next
  case (Suc n)
  then show ?case
    by (simp only: product_replicate_Suc length_product_step power_Suc mult.commute)
qed

lemma set_product_replicate:
  "set (itertools_product (replicate n A)) = {p. length p = n \<and> set p \<subseteq> set A}"
proof (induction n)
  case 0
  show ?case by (auto simp: product_Nil)
next
  case (Suc n)
  show ?case
  proof (intro set_eqI iffI)
    fix p
    assume "p \<in> set (itertools_product (replicate (Suc n) A))"
    then show "p \<in> {p. length p = Suc n \<and> set p \<subseteq> set A}"
      unfolding product_replicate_Suc using Suc.IH by auto
  next
    fix p
    assume "p \<in> {p. length p = Suc n \<and> set p \<subseteq> set A}"
    then have len: "length p = Suc n" and sub: "set p \<subseteq> set A"
      by auto
    from len obtain x y where p: "p = x @ [y]"
      by (cases p rule: rev_cases) auto
    with len sub have "x \<in> set (itertools_product (replicate n A))" "y \<in> set A"
      using Suc.IH by auto
    then show "p \<in> set (itertools_product (replicate (Suc n) A))"
      unfolding product_replicate_Suc p by auto
  qed
qed

lemma snoc_less_same: "y < y' \<Longrightarrow> x @ [y] < x @ [y']"
  by (induction x) simp_all

lemma snoc_less_snoc: "length x = length x' \<Longrightarrow> x < x' \<Longrightarrow> x @ [y] < x' @ [y']"
proof (induction x arbitrary: x')
  case Nil
  then show ?case by simp
next
  case (Cons a x)
  then show ?case by (cases x') auto
qed

lemma sorted_product_step:
  fixes A :: "'a::linorder list"
  assumes A: "sorted_wrt (<) A"
  shows "sorted_wrt (<) R \<Longrightarrow> \<forall>x\<in>set R. length x = n \<Longrightarrow>
     sorted_wrt (<) (concat (map (\<lambda>x. map (\<lambda>y. x @ [y]) A) R))"
proof (induction R)
  case Nil
  show ?case by simp
next
  case (Cons x R)
  have 1: "sorted_wrt (<) (map (\<lambda>y. x @ [y]) A)"
    using A by (simp add: sorted_wrt_map sorted_wrt_mono_rel [OF _ A] snoc_less_same)
  have 2: "sorted_wrt (<) (concat (map (\<lambda>x. map (\<lambda>y. x @ [y]) A) R))"
    using Cons by simp
  have 3: "u < v" if "u \<in> set (map (\<lambda>y. x @ [y]) A)"
      "v \<in> set (concat (map (\<lambda>x. map (\<lambda>y. x @ [y]) A) R))" for u v
  proof -
    from that obtain y x' y' where "u = x @ [y]" "v = x' @ [y']" "x' \<in> set R"
      by auto
    moreover have "x < x'" "length x = length x'"
      using Cons.prems \<open>x' \<in> set R\<close> by auto
    ultimately show ?thesis by (simp add: snoc_less_snoc)
  qed
  show ?case using 1 2 3 by (simp add: sorted_wrt_append)
qed

lemma sorted_product_replicate:
  fixes A :: "'a::linorder list"
  assumes "sorted_wrt (<) A"
  shows "sorted_wrt (<) (itertools_product (replicate n A))"
proof (induction n)
  case 0
  show ?case by (simp add: product_Nil)
next
  case (Suc n)
  have "\<forall>x\<in>set (itertools_product (replicate n A)). length x = n"
    by (simp add: set_product_replicate)
  then show ?case
    unfolding product_replicate_Suc by (rule sorted_product_step [OF assms Suc.IH])
qed

lemma join_empty: "join [] xs = concat xs"
  by (induction "[]::string" xs rule: join.induct) simp_all

lemma concat_product_str_iter:
  "map concat (itertools_product (replicate n (str_iter s))) = itertools_product (replicate n s)"
proof (induction n)
  case 0
  show ?case by (simp add: product_Nil)
next
  case (Suc n)
  have "map concat (concat (map (\<lambda>x. map (\<lambda>y. x @ [y]) (str_iter s)) R))
      = concat (map (\<lambda>x. map (\<lambda>y. x @ [y]) s) (map concat R))" for R
    by (induction R) (simp_all add: str_iter_def comp_def)
  with Suc show ?case by (simp only: product_replicate_Suc)
qed

lemma generate_prefixes_eq:
  "generate_prefixes = itertools_product (replicate 3 ''abcdefghijklmnopqrstuvwxyz'')"
proof -
  have "join [] = concat"
    by (rule ext) (rule join_empty)
  then have "generate_prefixes =
      map concat (itertools_product (replicate 3 (str_iter ''abcdefghijklmnopqrstuvwxyz'')))"
    unfolding generate_prefixes_def by (simp only: concat_map_singleton)
  then show ?thesis by (simp only: concat_product_str_iter)
qed

lemma sorted_alphabet: "sorted_wrt (<) ''abcdefghijklmnopqrstuvwxyz''"
  by (simp add: less_char_def)

text \<open>
  C2: \<open>generate_prefixes\<close> returns exactly \<open>26 ^ 3 = 17576\<close> queries; they are exactly
  the strings of length 3 over the lowercase letters; no query occurs twice; and the
  list is strictly increasing in the lexicographic order of strings.
\<close>

theorem generate_prefixes_spec:
  "length generate_prefixes = 26 ^ 3 \<and> length generate_prefixes = 17576
   \<and> set generate_prefixes = {q. length q = 3 \<and> set q \<subseteq> set ''abcdefghijklmnopqrstuvwxyz''}
   \<and> distinct generate_prefixes \<and> sorted_wrt (<) generate_prefixes"
proof -
  let ?A = "''abcdefghijklmnopqrstuvwxyz''"
  have s: "sorted_wrt (<) generate_prefixes"
    unfolding generate_prefixes_eq by (rule sorted_product_replicate [OF sorted_alphabet])
  have "length ?A = 26"
    by code_simp
  then have l: "length generate_prefixes = 26 ^ 3"
    by (simp only: generate_prefixes_eq length_product_replicate)
  have m: "set generate_prefixes = {q. length q = 3 \<and> set q \<subseteq> set ?A}"
    unfolding generate_prefixes_eq by (rule set_product_replicate)
  from s have d: "distinct generate_prefixes"
    by (simp add: strict_sorted_iff)
  from l have "length generate_prefixes = 17576"
    by simp
  with s l m d show ?thesis by blast
qed

subsection \<open>The completion ledger\<close>


subsection \<open>Saving a podcast\<close>

lemma bind_result_Inr:
  "bind_result r f = Inr y \<longleftrightarrow> (\<exists>x. r = Inr x \<and> f x = Inr y)"
  by (cases r) (simp_all add: bind_result_def)

lemma save_podcast_parameters_Inr:
  assumes "save_podcast_parameters pd = Inr vs"
  shows "\<exists>am la im ex. joined_or_none pd ''available_markets'' = Inr am \<and>
     vs = [dict_get pd ''id'' JNull, dict_get pd ''name'' JNull,
          dict_get pd ''description'' JNull, dict_get pd ''publisher'' JNull,
          dict_get pd ''total_episodes'' JNull, dict_get pd ''explicit'' JNull,
          dict_get pd ''media_type'' JNull, am, la, im, ex,
          dict_get pd ''href'' JNull, am, dict_get pd ''market'' (JStr ''US'')]"
  using assms unfolding save_podcast_parameters_def
  by (auto simp: bind_result_Inr)

lemma bind_parameters_Cons_Inr:
  "bind_parameters (v # vs) = Inr r \<longleftrightarrow>
     (\<exists>x xs. bind_parameter v = Inr x \<and> bind_parameters vs = Inr xs \<and> r = x # xs)"
  by (auto simp: bind_result_Inr)

lemma bind_parameters_Nil_Inr: "bind_parameters [] = Inr r \<longleftrightarrow> r = []"
  by auto

lemma row_of_Inr:
  assumes "bind_result (save_podcast_parameters pd) bind_parameters = Inr r"
  shows "\<exists>k n de pu te ex me am la im eu hr ma.
     r = [k, n, de, pu, te, ex, me, am, la, im, eu, hr, am, ma]
     \<and> bind_parameter (dict_get pd ''id'' JNull) = Inr k
     \<and> (\<exists>j. joined_or_none pd ''available_markets'' = Inr j \<and> bind_parameter j = Inr am)"
proof -
  from assms obtain vs where vs: "save_podcast_parameters pd = Inr vs"
    and r: "bind_parameters vs = Inr r"
    by (auto simp: bind_result_Inr)
  from save_podcast_parameters_Inr [OF vs] obtain am la im ex where
    j: "joined_or_none pd ''available_markets'' = Inr am" and
    "vs = [dict_get pd ''id'' JNull, dict_get pd ''name'' JNull,
          dict_get pd ''description'' JNull, dict_get pd ''publisher'' JNull,
          dict_get pd ''total_episodes'' JNull, dict_get pd ''explicit'' JNull,
          dict_get pd ''media_type'' JNull, am, la, im, ex,
          dict_get pd ''href'' JNull, am, dict_get pd ''market'' (JStr ''US'')]"
    by blast
  with r show ?thesis
    by (simp only: bind_parameters_Cons_Inr bind_parameters_Nil_Inr) (use j in force)
qed

lemma column_id: "column ''id'' (k # r) = k"
  by (simp add: column_def podcasts_columns_def)

lemma column_markets:
  "column ''available_markets'' [k, n, de, pu, te, ex, me, am, la, im, eu, hr, rc, ma] = am"
  "column ''recorded_countries'' [k, n, de, pu, te, ex, me, am, la, im, eu, hr, rc, ma] = rc"
  by (simp_all add: column_def podcasts_columns_def)

lemma save_podcast_Inr:
  "save_podcast pd d = (Inr u, d') \<longleftrightarrow>
    (\<exists>r. bind_result (save_podcast_parameters pd) bind_parameters = Inr r
       \<and> d' = d\<lparr>podcasts := insert_or_replace r (podcasts d)\<rparr>)"
  by (auto simp: save_podcast_def split: sum.splits)


lemma row_of_show_one:
  "bind_result (save_podcast_parameters show_one) bind_parameters =
     Inr [SText ''show1'', SText ''First'', SNull, SNull, SNull, SNull, SNull,
          SText ''US, GB'', SNull, SText ''http://img/1'', SText ''http://open/1'',
          SNull, SText ''US, GB'', SText ''US'']"
  by (simp add: show_one_def save_podcast_parameters_def joined_or_none_def
      dict_get_def bind_result_def str_join_def)

lemma row_of_show_one_renamed:
  "bind_result (save_podcast_parameters show_one_renamed) bind_parameters =
     Inr [SText ''show1'', SText ''Second'', SNull, SNull, SNull, SNull, SNull,
          SNull, SNull, SNull, SNull, SNull, SNull, SText ''US'']"
  by (simp add: show_one_renamed_def save_podcast_parameters_def joined_or_none_def
      dict_get_def bind_result_def str_join_def)

lemma insert_null_key:
  "column ''id'' r = SNull \<Longrightarrow> insert_or_replace r tbl = tbl @ [r]"
  by (simp add: insert_or_replace_def sql_eq_def)

text \<open>
  C6, as stated, fails for a missing identifier: it is stored as \<open>NULL\<close>, which is
  never equal to a key of the table, so two calls that both return leave two rows.
\<close>

theorem missing_identifier_is_not_replaced:
  "fst (save_podcast show_without_id empty_db) = Inr ()
   \<and> fst (save_podcast show_without_id_renamed (snd (save_podcast show_without_id empty_db)))
       = Inr ()
   \<and> dict_get show_without_id ''id'' JNull = dict_get show_without_id_renamed ''id'' JNull
   \<and> podcasts (snd (save_podcast show_without_id_renamed
        (snd (save_podcast show_without_id empty_db))))
      = [[SNull, SText ''Nameless'', SNull, SNull, SNull, SNull, SNull, SNull, SNull, SNull,
          SNull, SNull, SNull, SText ''US''],
         [SNull, SText ''Renamed'', SNull, SNull, SNull, SNull, SNull, SNull, SNull, SNull,
          SNull, SNull, SNull, SText ''US'']]"
  by code_simp

text \<open>
  C6, amended: when \<open>save_podcast\<close> is called twice with the same identifier and both
  calls return, then, if the identifier is present (bound to a value other than
  \<open>NULL\<close>), the table holds exactly one row with that identifier, the row of the second
  call; if it is missing, nothing is replaced and the rows of both calls are appended.
\<close>

theorem save_podcast_upsert:
  assumes "save_podcast pd1 d = (Inr (), d1)" and "save_podcast pd2 d1 = (Inr (), d2)"
    and "dict_get pd1 ''id'' JNull = dict_get pd2 ''id'' JNull"
    and "bind_parameter (dict_get pd2 ''id'' JNull) = Inr k"
  shows "\<exists>r1 r2. bind_result (save_podcast_parameters pd1) bind_parameters = Inr r1
     \<and> bind_result (save_podcast_parameters pd2) bind_parameters = Inr r2
     \<and> (k \<noteq> SNull \<longrightarrow> filter (\<lambda>x. column ''id'' x = k) (podcasts d2) = [r2])
     \<and> (k = SNull \<longrightarrow> podcasts d2 = podcasts d @ [r1, r2])"
proof -
  from assms(1) obtain r1 where
    r1: "bind_result (save_podcast_parameters pd1) bind_parameters = Inr r1"
    and d1: "d1 = d\<lparr>podcasts := insert_or_replace r1 (podcasts d)\<rparr>"
    by (auto simp: save_podcast_Inr)
  from assms(2) obtain r2 where
    r2: "bind_result (save_podcast_parameters pd2) bind_parameters = Inr r2"
    and d2: "d2 = d1\<lparr>podcasts := insert_or_replace r2 (podcasts d1)\<rparr>"
    by (auto simp: save_podcast_Inr)
  from row_of_Inr [OF r2] assms(4) have k2: "column ''id'' r2 = k"
    by (auto simp: column_id)
  from row_of_Inr [OF r1] assms(3,4) have k1: "column ''id'' r1 = k"
    by (auto simp: column_id)
  have present: "filter (\<lambda>x. column ''id'' x = k) (podcasts d2) = [r2]" if "k \<noteq> SNull"
    using k2 that by (auto simp: d2 insert_or_replace_def sql_eq_def filter_empty_conv)
  have missing: "podcasts d2 = podcasts d @ [r1, r2]" if "k = SNull"
    using k1 k2 that by (simp add: d2 d1 insert_null_key)
  from r1 r2 present missing show ?thesis
    by blast
qed

theorem save_podcast_upsert_witness:
  "fst (save_podcast show_one empty_db) = Inr ()
   \<and> fst (save_podcast show_one_renamed (snd (save_podcast show_one empty_db))) = Inr ()
   \<and> dict_get show_one ''id'' JNull = dict_get show_one_renamed ''id'' JNull
   \<and> bind_parameter (dict_get show_one_renamed ''id'' JNull) = Inr (SText ''show1'')
   \<and> filter (\<lambda>x. column ''id'' x = SText ''show1'')
        (podcasts (snd (save_podcast show_one_renamed (snd (save_podcast show_one empty_db)))))
      = [[SText ''show1'', SText ''Second'', SNull, SNull, SNull, SNull, SNull,
          SNull, SNull, SNull, SNull, SNull, SNull, SText ''US'']]
   \<and> fst (save_podcast show_without_id empty_db) = Inr ()
   \<and> fst (save_podcast show_without_id_renamed (snd (save_podcast show_without_id empty_db)))
       = Inr ()
   \<and> bind_parameter (dict_get show_without_id_renamed ''id'' JNull) = Inr SNull
   \<and> length (podcasts (snd (save_podcast show_without_id_renamed
        (snd (save_podcast show_without_id empty_db))))) = 2"
proof -
  let ?d1 = "snd (save_podcast show_one empty_db)"
  let ?d2 = "snd (save_podcast show_one_renamed ?d1)"
  let ?e1 = "snd (save_podcast show_without_id empty_db)"
  let ?e2 = "snd (save_podcast show_without_id_renamed ?e1)"
  have 1: "save_podcast show_one empty_db = (Inr (), ?d1)"
    by (simp add: save_podcast_def row_of_show_one)
  have 2: "save_podcast show_one_renamed ?d1 = (Inr (), ?d2)"
    by (simp add: save_podcast_def row_of_show_one_renamed)
  have 3: "dict_get show_one ''id'' JNull = dict_get show_one_renamed ''id'' JNull"
    by (simp add: dict_get_def show_one_def show_one_renamed_def)
  have 4: "bind_parameter (dict_get show_one_renamed ''id'' JNull) = Inr (SText ''show1'')"
    by (simp add: dict_get_def show_one_renamed_def)
  from save_podcast_upsert [OF 1 2 3 4]
  have a: "filter (\<lambda>x. column ''id'' x = SText ''show1'') (podcasts ?d2)
      = [[SText ''show1'', SText ''Second'', SNull, SNull, SNull, SNull, SNull,
          SNull, SNull, SNull, SNull, SNull, SNull, SText ''US'']]"
    by (auto simp: row_of_show_one_renamed)
  have r: "fst (save_podcast show_without_id empty_db) = Inr ()"
    "fst (save_podcast show_without_id_renamed ?e1) = Inr ()"
    by code_simp+
  then have 5: "save_podcast show_without_id empty_db = (Inr (), ?e1)"
    and 6: "save_podcast show_without_id_renamed ?e1 = (Inr (), ?e2)"
    by (simp_all add: prod_eq_iff)
  have 7: "dict_get show_without_id ''id'' JNull = dict_get show_without_id_renamed ''id'' JNull"
    by (simp add: dict_get_def show_without_id_def show_without_id_renamed_def)
  have 8: "bind_parameter (dict_get show_without_id_renamed ''id'' JNull) = Inr SNull"
    by (simp add: dict_get_def show_without_id_renamed_def)
  from save_podcast_upsert [OF 5 6 7 8] obtain r1 r2 where
    "podcasts ?e2 = podcasts empty_db @ [r1, r2]"
    by blast
  then have b: "length (podcasts ?e2) = 2"
    by (simp add: empty_db_def)
  from 1 have f1: "fst (save_podcast show_one empty_db) = Inr ()"
    by (metis fst_conv)
  from 2 have f2: "fst (save_podcast show_one_renamed ?d1) = Inr ()"
    by (metis fst_conv)
  from f1 f2 3 4 a r 8 b show ?thesis
    by blast
qed

text \<open>
  C10: the row written by \<open>save_podcast\<close> has the same value in \<open>recorded_countries\<close>
  as in \<open>available_markets\<close>: \<open>NULL\<close> when the list of markets is missing or empty,
  the markets joined by a comma and a space when it is a non-empty list of strings.
  So the two columns agree in every row of a table that only \<open>save_podcast\<close> wrote.
\<close>

theorem recorded_countries_spec:
  assumes "save_podcast pd d = (Inr (), d')"
  shows "\<exists>r. podcasts d' = filter (\<lambda>x. \<not> sql_eq (column ''id'' x) (column ''id'' r)) (podcasts d) @ [r]
     \<and> column ''recorded_countries'' r = column ''available_markets'' r
     \<and> (\<not> truthy (dict_get pd ''available_markets'' JNull) \<longrightarrow>
          column ''available_markets'' r = SNull)
     \<and> (\<forall>ms. dict_get pd ''available_markets'' JNull = JList (map JStr ms) \<and> ms \<noteq> [] \<longrightarrow>
          column ''available_markets'' r = SText (join '', '' ms))
     \<and> (list_all (\<lambda>x. column ''recorded_countries'' x = column ''available_markets'' x) (podcasts d)
          \<longrightarrow> list_all (\<lambda>x. column ''recorded_countries'' x = column ''available_markets'' x) (podcasts d'))"
proof -
  let ?P = "\<lambda>x. column ''recorded_countries'' x = column ''available_markets'' x"
  let ?m = "dict_get pd ''available_markets'' JNull"
  from assms obtain r where
    r: "bind_result (save_podcast_parameters pd) bind_parameters = Inr r"
    and d': "d' = d\<lparr>podcasts := insert_or_replace r (podcasts d)\<rparr>"
    by (auto simp: save_podcast_Inr)
  from row_of_Inr [OF r] obtain k n de pu te ex me am la im eu hr ma j where
    shape: "r = [k, n, de, pu, te, ex, me, am, la, im, eu, hr, am, ma]"
    and j: "joined_or_none pd ''available_markets'' = Inr j" and am: "bind_parameter j = Inr am"
    by blast
  have cols: "column ''available_markets'' r = am" "column ''recorded_countries'' r = am"
    by (simp_all add: shape column_markets)
  have none: "am = SNull" if "\<not> truthy ?m"
    using that j am by (auto simp: joined_or_none_def)
  have some: "am = SText (join '', '' ms)" if "?m = JList (map JStr ms)" "ms \<noteq> []" for ms
  proof -
    have "dict_get pd ''available_markets'' (JList []) = JList (map JStr ms)"
      using that(1) by (simp add: dict_get_def split: option.splits)
    moreover have "list_all is_JStr (map JStr ms)" "map the_JStr (map JStr ms) = ms"
      by (induction ms) simp_all
    ultimately show ?thesis
      using that j am by (auto simp: joined_or_none_def str_join_def bind_result_def)
  qed
  have pres: "list_all ?P (podcasts d')" if "list_all ?P (podcasts d)"
    using that cols by (simp add: d' insert_or_replace_def list_all_iff)
  show ?thesis
    using cols none some pres by (intro exI [of _ r]) (simp add: d' insert_or_replace_def)
qed

theorem recorded_countries_spec_witness:
  "save_podcast show_one empty_db = (Inr (), snd (save_podcast show_one empty_db))
   \<and> (\<exists>r. podcasts (snd (save_podcast show_one empty_db)) = [r]
        \<and> column ''recorded_countries'' r = SText ''US, GB''
        \<and> column ''available_markets'' r = SText ''US, GB'')"
proof -
  have 1: "save_podcast show_one empty_db = (Inr (), snd (save_podcast show_one empty_db))"
    by (simp add: save_podcast_def row_of_show_one)
  have 2: "dict_get show_one ''available_markets'' JNull = JList (map JStr [''US'', ''GB''])"
    by (simp add: dict_get_def show_one_def)
  have 3: "podcasts empty_db = []"
    by (simp add: empty_db_def)
  from recorded_countries_spec [OF 1] obtain r where
    a: "podcasts (snd (save_podcast show_one empty_db)) =
       filter (\<lambda>x. \<not> sql_eq (column ''id'' x) (column ''id'' r)) (podcasts empty_db) @ [r]"
    and b: "column ''recorded_countries'' r = column ''available_markets'' r"
    and c: "\<forall>ms. dict_get show_one ''available_markets'' JNull = JList (map JStr ms) \<and> ms \<noteq> [] \<longrightarrow>
          column ''available_markets'' r = SText (join '', '' ms)"
    by blast
  from c [rule_format, of "[''US'', ''GB'']"] 2
  have "column ''available_markets'' r = SText ''US, GB''"
    by simp
  with a b 3 have "podcasts (snd (save_podcast show_one empty_db)) = [r]
      \<and> column ''recorded_countries'' r = SText ''US, GB''
      \<and> column ''available_markets'' r = SText ''US, GB''"
    by simp
  with 1 show ?thesis by blast
qed

subsection \<open>The retrying fetcher\<close>

lemma fetch_data_from_calls:
  "tries < max_tries \<Longrightarrow>
   \<exists>k. snd (snd (fetch_data_from tries C query offset lim w)) = replicate k (Search query lim offset)
      \<and> 1 \<le> k \<and> k \<le> max_tries - tries"
proof (induction tries C query offset lim w rule: fetch_data_from.induct)
  case (1 tries C query offset lim w)
  obtain r w1 where s: "client_search C query lim offset w = (r, w1)"
    by (cases "client_search C query lim offset w")
  show ?case
  proof (cases r)
    case (Inr results)
    with s 1(2) show ?thesis
      by (subst fetch_data_from.simps) (auto intro!: exI [of _ 1])
  next
    case (Inl e)
    show ?thesis
    proof (cases "max_tries \<le> Suc tries")
      case True
      with s Inl 1(2) show ?thesis
        by (subst fetch_data_from.simps) (auto intro!: exI [of _ 1])
    next
      case False
      then have "Suc tries < max_tries" by simp
      from 1(1) [OF s [symmetric] Inl False this] obtain k where
        k: "snd (snd (fetch_data_from (Suc tries) C query offset lim w1))
              = replicate k (Search query lim offset)" "1 \<le> k" "k \<le> max_tries - Suc tries"
        by blast
      obtain r2 w2 calls where
        f: "fetch_data_from (Suc tries) C query offset lim w1 = (r2, w2, calls)"
        by (cases "fetch_data_from (Suc tries) C query offset lim w1")
      with k s Inl False show ?thesis
        by (subst fetch_data_from.simps) (auto intro!: exI [of _ "Suc k"])
    qed
  qed
qed

lemma flaky_from:
  "tries < max_tries \<Longrightarrow>
   fetch_data_from tries (flaky_client fs page) q off lim n =
     (if length fs - n < max_tries - tries
      then (Inr page, Suc (n + (length fs - n)), replicate (Suc (length fs - n)) (Search q lim off))
      else (Inl (fs ! (n + (max_tries - tries) - 1)), n + (max_tries - tries),
            replicate (max_tries - tries) (Search q lim off)))"
proof (induction "max_tries - tries" arbitrary: tries n)
  case 0
  then show ?case by simp
next
  case (Suc a)
  show ?case
  proof (cases "n < length fs")
    case False
    then show ?thesis
      using Suc.prems
      by (subst fetch_data_from.simps) (simp add: flaky_client_def flaky_search_def)
  next
    case True
    show ?thesis
    proof (cases "max_tries \<le> Suc tries")
      case t: True
      with Suc.prems have "max_tries - tries = 1" by simp
      with True t show ?thesis
        by (subst fetch_data_from.simps) (simp add: flaky_client_def flaky_search_def)
    next
      case f: False
      then have lt: "Suc tries < max_tries" by simp
      have a: "a = max_tries - Suc tries" using Suc.hyps(2) by simp
      have step: "fetch_data_from tries (flaky_client fs page) q off lim n =
          (case fetch_data_from (Suc tries) (flaky_client fs page) q off lim (Suc n) of
             (r, w2, calls) \<Rightarrow> (r, w2, Search q lim off # calls))"
        using True f
        by (subst fetch_data_from.simps) (simp add: flaky_client_def flaky_search_def)
      have len: "length fs - n = Suc (length fs - Suc n)"
        using True by simp
      have mt: "max_tries - tries = Suc (max_tries - Suc tries)"
        using lt by simp
      show ?thesis
        unfolding step Suc.hyps(1) [OF a lt] len mt
        by simp
    qed
  qed
qed

text \<open>
  C3: with a client that fails \<open>N\<close> times and then succeeds, \<open>fetch_data\<close> returns the
  page exactly when \<open>N < 5\<close>, after \<open>N + 1\<close> calls of the client; otherwise it raises
  the exception of the fifth call, after five calls.  Whatever the client does,
  \<open>fetch_data\<close> calls it at most five times.
\<close>

theorem fetch_data_retry_bound:
  "fetch_data (flaky_client failures page) query offset lim 0 =
     (if length failures < 5
      then (Inr page, Suc (length failures),
            replicate (Suc (length failures)) (Search query lim offset))
      else (Inl (failures ! 4), 5, replicate 5 (Search query lim offset)))
   \<and> ((fst (fetch_data (flaky_client failures page) query offset lim 0) = Inr page)
        = (length failures < 5))
   \<and> length (snd (snd (fetch_data C query offset lim w))) \<le> 5"
proof -
  have m: "0 < max_tries" "max_tries = 5"
    by (simp_all add: max_tries_def)
  have 1: "fetch_data (flaky_client failures page) query offset lim 0 =
     (if length failures < 5
      then (Inr page, Suc (length failures),
            replicate (Suc (length failures)) (Search query lim offset))
      else (Inl (failures ! 4), 5, replicate 5 (Search query lim offset)))"
    unfolding fetch_data_def flaky_from [OF m(1)] by (simp add: m(2))
  from fetch_data_from_calls [OF m(1), of C query offset lim w]
  have 2: "length (snd (snd (fetch_data C query offset lim w))) \<le> 5"
    unfolding fetch_data_def m(2) by auto
  from 1 2 show ?thesis by simp
qed

subsection \<open>The calls of one query\<close>

lemma fetch_offsets_append: "fetch_offsets (xs @ ys) = fetch_offsets xs @ fetch_offsets ys"
  by (induction xs rule: fetch_offsets.induct) simp_all

lemma marked_queries_append: "marked_queries (xs @ ys) = marked_queries xs @ marked_queries ys"
  by (induction xs rule: marked_queries.induct) simp_all

lemma failed_saves_append: "failed_saves (xs @ ys) = failed_saves xs @ failed_saves ys"
  by (induction xs rule: failed_saves.induct) simp_all

lemma search_offsets_append: "search_offsets (xs @ ys) = search_offsets xs @ search_offsets ys"
  by (induction xs rule: search_offsets.induct) simp_all

lemma readers_replicate_Search:
  "fetch_offsets (replicate k (Search q lim off)) = []"
  "marked_queries (replicate k (Search q lim off)) = []"
  "failed_saves (replicate k (Search q lim off)) = []"
  "search_offsets (replicate k (Search q lim off)) = replicate k off"
  by (induction k) simp_all

lemma fetch_data_calls:
  "\<exists>k. snd (snd (fetch_data C query offset lim w)) = replicate k (Search query lim offset)"
  using fetch_data_from_calls [of 0 C query offset lim w]
  by (auto simp: fetch_data_def max_tries_def)

lemma fetch_data_readers:
  assumes "fetch_data C query offset lim w = (r, w1, calls)"
  shows "fetch_offsets calls = []" "marked_queries calls = []" "failed_saves calls = []"
    "set (search_offsets calls) \<subseteq> {offset}"
  using fetch_data_calls [of C query offset lim w] assms
  by (auto simp: readers_replicate_Search)

lemma failure_ends_Cons:
  "failed_saves [c] = [] \<Longrightarrow> failure_ends calls \<Longrightarrow> failure_ends (c # calls)"
  unfolding failure_ends_def
proof (elim disjE exE conjE)
  assume "failed_saves [c] = []" "failed_saves calls = []"
  then have "failed_saves (c # calls) = []"
    using failed_saves_append [of "[c]" calls] by simp
  then show "failed_saves (c # calls) = [] \<or>
      (\<exists>pre pd. c # calls = pre @ [SavePodcast pd False] \<and> failed_saves pre = [])" ..
next
  fix pre pd
  assume c: "failed_saves [c] = []" and "calls = pre @ [SavePodcast pd False]" "failed_saves pre = []"
  then have "c # calls = (c # pre) @ [SavePodcast pd False]" "failed_saves (c # pre) = []"
    using failed_saves_append [of "[c]" pre] by simp_all
  then show "failed_saves (c # calls) = [] \<or>
      (\<exists>pre pd. c # calls = pre @ [SavePodcast pd False] \<and> failed_saves pre = [])"
    by blast
qed

lemma failure_ends_append:
  "failed_saves xs = [] \<Longrightarrow> failure_ends ys \<Longrightarrow> failure_ends (xs @ ys)"
  unfolding failure_ends_def
  by (auto simp: failed_saves_append)

lemma save_shows_readers:
  "save_shows C items n w = (r, m, w1, calls) \<Longrightarrow>
     fetch_offsets calls = [] \<and> marked_queries calls = [] \<and> search_offsets calls = []
     \<and> failure_ends calls \<and> (\<forall>u. r = Inr u \<longrightarrow> failed_saves calls = [])"
proof (induction C items n w arbitrary: r m w1 calls rule: save_shows.induct)
  case (1 C total_podcasts w)
  then show ?case by (auto simp: failure_ends_def)
next
  case (2 C item items total_podcasts w)
  show ?case
  proof (cases "podcast_data_of item")
    case (Inl e)
    with 2(2) show ?thesis by (auto simp: failure_ends_def)
  next
    case (Inr pd)
    obtain r1 w2 where s: "db_save_podcast C pd w = (r1, w2)"
      by (cases "db_save_podcast C pd w")
    show ?thesis
    proof (cases r1)
      case (Inl e)
      with 2(2) Inr s show ?thesis by (auto simp: failure_ends_def)
    next
      case r1: (Inr u)
      obtain r' m' w' calls' where
        rec: "save_shows C items (total_podcasts + 1) w2 = (r', m', w', calls')"
        by (cases "save_shows C items (total_podcasts + 1) w2") auto
      from 2(1) [OF Inr s [symmetric] r1 rec]
      have ih: "fetch_offsets calls' = []" "marked_queries calls' = []" "search_offsets calls' = []"
        "failure_ends calls'" "\<forall>u. r' = Inr u \<longrightarrow> failed_saves calls' = []"
        by simp_all
      from 2(2) Inr s r1 rec have eq: "r = r'" "calls = SavePodcast pd True # calls'"
        by auto
      from ih(4) have "failure_ends calls"
        unfolding eq by (rule failure_ends_Cons [rotated]) simp
      with ih eq show ?thesis by simp
    qed
  qed
qed

lemma save_page_readers:
  assumes "save_page C results n w = (r, m, w1, calls)"
  shows "fetch_offsets calls = []" "marked_queries calls = []" "search_offsets calls = []"
    "failure_ends calls" "r = Inr b \<Longrightarrow> failed_saves calls = []"
proof -
  have "fetch_offsets calls = [] \<and> marked_queries calls = [] \<and> search_offsets calls = []
     \<and> failure_ends calls \<and> (\<forall>b. r = Inr b \<longrightarrow> failed_saves calls = [])"
  proof (cases "bind_result (py_get results ''shows'' (JDict [])) (\<lambda>s. py_get s ''items'' (JList []))")
    case (Inl e)
    with assms show ?thesis by (auto simp: save_page_def failure_ends_def)
  next
    case (Inr its)
    show ?thesis
    proof (cases "truthy its")
      case False
      with assms Inr show ?thesis by (auto simp: save_page_def failure_ends_def)
    next
      case True
      show ?thesis
      proof (cases "iter_json its")
        case (Inl e)
        with assms Inr True show ?thesis by (auto simp: save_page_def failure_ends_def)
      next
        case items: (Inr items)
        obtain r' m' w' calls' where s: "save_shows C items n w = (r', m', w', calls')"
          by (cases "save_shows C items n w") auto
        from assms Inr True items s have "calls = calls'" "(\<exists>b. r = Inr b) \<longrightarrow> (\<exists>u. r' = Inr u)"
          by (auto simp: save_page_def split: sum.splits)
        with save_shows_readers [OF s] show ?thesis by auto
      qed
    qed
  qed
  then show "fetch_offsets calls = []" "marked_queries calls = []" "search_offsets calls = []"
    "failure_ends calls" "r = Inr b \<Longrightarrow> failed_saves calls = []"
    by simp_all
qed

lemma loop_readers:
  "process_query_loop C q off n w = (m, w1, calls) \<Longrightarrow>
     marked_queries calls = [] \<and> failure_ends calls
     \<and> (\<exists>k. fetch_offsets calls = map (\<lambda>i. off + limit * int i) [0..<k]
            \<and> (k = 0 \<or> off + limit * int (k - 1) < 1000))
     \<and> set (search_offsets calls) \<subseteq> set (fetch_offsets calls)"
proof (induction C q off n w arbitrary: m w1 calls rule: process_query_loop.induct)
  case (1 C query offset total_podcasts w)
  show ?case
  proof (cases "offset < 1000")
    case False
    with 1(2) show ?thesis
      by (subst (asm) process_query_loop.simps) (auto simp: failure_ends_def)
  next
    case lt: True
    obtain r wa callsa where f: "fetch_data C query offset limit w = (r, wa, callsa)"
      by (cases "fetch_data C query offset limit w") auto
    note fr = fetch_data_readers [OF f]
    have one: "\<exists>k. [offset] = map (\<lambda>i. offset + limit * int i) [0..<k]
            \<and> (k = 0 \<or> offset + limit * int (k - 1) < 1000)"
      using lt by (intro exI [of _ 1]) simp
    show ?thesis
    proof (cases r)
      case (Inl e)
      with 1(2) lt f have "calls = FetchData query offset # callsa"
        by (subst (asm) process_query_loop.simps) auto
      with fr one show ?thesis
        by (auto simp: failure_ends_def)
    next
      case (Inr results)
      obtain rb nb wb callsb where s: "save_page C results total_podcasts wa = (rb, nb, wb, callsb)"
        by (cases "save_page C results total_podcasts wa") auto
      note sr = save_page_readers [OF s]
      show ?thesis
      proof (cases "rb = Inr True")
        case False
        with 1(2) lt f Inr s have c: "calls = FetchData query offset # callsa @ callsb"
          by (subst (asm) process_query_loop.simps) (auto split: sum.splits bool.splits)
        have "failure_ends calls"
          unfolding c using fr(3) sr(4)
          by (intro failure_ends_Cons failure_ends_append) simp_all
        with c fr sr(1-3) one show ?thesis
          by (auto simp: fetch_offsets_append marked_queries_append search_offsets_append)
      next
        case True
        obtain mc wc callsc where l: "process_query_loop C query (offset + limit) nb wb = (mc, wc, callsc)"
          by (cases "process_query_loop C query (offset + limit) nb wb") auto
        from 1(1) [OF lt f [symmetric] Inr refl s [symmetric] True refl refl refl l]
        obtain k where ih: "marked_queries callsc = []" "failure_ends callsc"
          "fetch_offsets callsc = map (\<lambda>i. offset + limit + limit * int i) [0..<k]"
          "k = 0 \<or> offset + limit + limit * int (k - 1) < 1000"
          "set (search_offsets callsc) \<subseteq> set (fetch_offsets callsc)"
          by blast
        from 1(2) lt f Inr s True l
        have c: "calls = FetchData query offset # callsa @ callsb @ callsc"
          by (subst (asm) process_query_loop.simps) auto
        have fe: "failure_ends calls"
          unfolding c using fr(3) sr(5) [OF True] ih(2)
          by (intro failure_ends_Cons failure_ends_append) simp_all
        have fo: "fetch_offsets calls = map (\<lambda>i. offset + limit * int i) [0..<Suc k]"
          unfolding c using fr(1) sr(1) ih(3)
          by (simp add: fetch_offsets_append map_upt_Suc algebra_simps del: upt_Suc)
        have bound: "Suc k = 0 \<or> offset + limit * int (Suc k - 1) < 1000"
          using ih(4) lt by (cases k) (auto simp: algebra_simps)
        have so: "set (search_offsets calls) \<subseteq> set (fetch_offsets calls)"
          using fr(1,4) sr(1,3) ih(5)
          by (auto simp: c fetch_offsets_append search_offsets_append)
        have mq: "marked_queries calls = []"
          using fr(2) sr(2) ih(1) by (simp add: c marked_queries_append)
        from fe fo bound so mq show ?thesis by blast
      qed
    qed
  qed
qed

lemma process_query_calls:
  "snd (snd (process_query C query w)) =
     snd (snd (process_query_loop C query 0 0 w)) @ [MarkQueryCompleted query]"
  by (simp add: process_query_def split: prod.splits sum.splits)

lemma process_query_result:
  "fst (process_query C query w) =
     (case fst (db_mark_query_completed C query (fst (snd (process_query_loop C query 0 0 w)))) of
        Inl e \<Rightarrow> Inl e
      | Inr u \<Rightarrow> Inr (fst (process_query_loop C query 0 0 w)))"
  by (simp add: process_query_def split: prod.splits sum.splits)

lemma loop_readers_0:
  "marked_queries (snd (snd (process_query_loop C q off n w))) = []"
  "failure_ends (snd (snd (process_query_loop C q off n w)))"
  "\<exists>k. fetch_offsets (snd (snd (process_query_loop C q off n w)))
          = map (\<lambda>i. off + limit * int i) [0..<k]
       \<and> (k = 0 \<or> off + limit * int (k - 1) < 1000)"
  "set (search_offsets (snd (snd (process_query_loop C q off n w))))
     \<subseteq> set (fetch_offsets (snd (snd (process_query_loop C q off n w))))"
  using loop_readers [of C q off n w] by (cases "process_query_loop C q off n w"; simp)+

lemma process_query_marks:
  "marked_queries (snd (snd (process_query C query w))) = [query]"
  by (simp add: process_query_calls marked_queries_append loop_readers_0(1))



lemma successful_saves_append:
  "successful_saves (xs @ ys) = successful_saves xs @ successful_saves ys"
  by (induction xs rule: successful_saves.induct) simp_all

lemma successful_saves_replicate_Search:
  "successful_saves (replicate k (Search q lim off)) = []"
  by (induction k) simp_all

lemma fetch_data_no_saves:
  "successful_saves (snd (snd (fetch_data C query offset lim w))) = []"
  using fetch_data_calls [of C query offset lim w]
  by (auto simp: successful_saves_replicate_Search)

lemma save_shows_count:
  "fst (snd (save_shows C items n w))
     = n + int (length (successful_saves (snd (snd (snd (save_shows C items n w))))))"
proof (induction C items n w rule: save_shows.induct)
  case (1 C total_podcasts w)
  show ?case by simp
next
  case (2 C item items total_podcasts w)
  show ?case
  proof (cases "podcast_data_of item")
    case (Inl e)
    then show ?thesis by simp
  next
    case (Inr pd)
    obtain r1 w2 where s: "db_save_podcast C pd w = (r1, w2)"
      by (cases "db_save_podcast C pd w")
    show ?thesis
    proof (cases r1)
      case (Inl e)
      with Inr s show ?thesis by simp
    next
      case r1: (Inr u)
      from 2 [OF Inr s [symmetric] r1] Inr s r1 show ?thesis
        by (auto split: prod.splits)
    qed
  qed
qed

lemma save_page_count:
  "fst (snd (save_page C results n w))
     = n + int (length (successful_saves (snd (snd (snd (save_page C results n w))))))"
proof -
  have "m = n + int (length (successful_saves calls))"
    if "save_shows C items n w = (r, m, w1, calls)" for items r m w1 calls
    using save_shows_count [of C items n w] that by simp
  then show ?thesis
    by (auto simp: save_page_def split: sum.splits prod.splits)
qed

lemma loop_count:
  "fst (process_query_loop C q off n w)
     = n + int (length (successful_saves (snd (snd (process_query_loop C q off n w)))))"
proof (induction C q off n w rule: process_query_loop.induct)
  case (1 C query offset total_podcasts w)
  show ?case
  proof (cases "offset < 1000")
    case False
    then show ?thesis
      by (subst (1 2) process_query_loop.simps) simp
  next
    case lt: True
    obtain r wa callsa where f: "fetch_data C query offset limit w = (r, wa, callsa)"
      by (cases "fetch_data C query offset limit w") auto
    with fetch_data_no_saves [of C query offset limit w] have fa: "successful_saves callsa = []"
      by simp
    show ?thesis
    proof (cases r)
      case (Inl e)
      with lt f fa show ?thesis
        by (subst (1 2) process_query_loop.simps) simp
    next
      case (Inr results)
      obtain rb nb wb callsb where s: "save_page C results total_podcasts wa = (rb, nb, wb, callsb)"
        by (cases "save_page C results total_podcasts wa") auto
      with save_page_count [of C results total_podcasts wa]
      have nb: "nb = total_podcasts + int (length (successful_saves callsb))"
        by simp
      show ?thesis
      proof (cases "rb = Inr True")
        case False
        with lt f Inr s fa nb show ?thesis
          by (subst (1 2) process_query_loop.simps)
             (auto simp: successful_saves_append split: sum.splits bool.splits)
      next
        case True
        obtain mc wc callsc where
          l: "process_query_loop C query (offset + limit) nb wb = (mc, wc, callsc)"
          by (cases "process_query_loop C query (offset + limit) nb wb") auto
        from 1 [OF lt f [symmetric] Inr refl s [symmetric] True refl refl refl] l
        have "mc = nb + int (length (successful_saves callsc))"
          by simp
        with lt f Inr s fa nb True l show ?thesis
          by (subst (1 2) process_query_loop.simps) (simp add: successful_saves_append)
      qed
    qed
  qed
qed

lemma process_query_count:
  "fst (process_query C query w) =
     (case fst (db_mark_query_completed C query (fst (snd (process_query_loop C query 0 0 w)))) of
        Inl e \<Rightarrow> Inl e
      | Inr u \<Rightarrow> Inr (int (length (successful_saves (snd (snd (process_query C query w)))))))"
proof -
  have a: "successful_saves (snd (snd (process_query C query w)))
      = successful_saves (snd (snd (process_query_loop C query 0 0 w)))"
    by (simp add: process_query_calls successful_saves_append)
  have b: "fst (process_query_loop C query 0 0 w)
      = int (length (successful_saves (snd (snd (process_query_loop C query 0 0 w)))))"
    using loop_count [of C query 0 0 w] by simp
  show ?thesis
    unfolding process_query_result a by (simp only: b [symmetric])
qed

subsection \<open>Pagination\<close>














subsection \<open>The completion mark\<close>

lemma fetch_data_from_keeps_db:
  "snd (fst (snd (fetch_data_from tries (with_database search) q off lim (c, d)))) = d"
proof (induction tries "with_database search" q off lim "(c, d)" arbitrary: c
    rule: fetch_data_from.induct)
  case (1 tries query offset lim)
  obtain r c1 where s: "search query lim offset c = (r, c1)"
    by (cases "search query lim offset c")
  then have cs: "client_search (with_database search) query lim offset (c, d) = (r, (c1, d))"
    by (simp add: with_database_def)
  show ?case
  proof (cases r)
    case (Inr results)
    with cs show ?thesis
      by (subst fetch_data_from.simps) simp
  next
    case (Inl e)
    show ?thesis
    proof (cases "max_tries \<le> Suc tries")
      case True
      with cs Inl show ?thesis
        by (subst fetch_data_from.simps) simp
    next
      case False
      from 1 [OF cs [symmetric] Inl False]
      have "snd (fst (snd (fetch_data_from (Suc tries) (with_database search) query offset lim
          (c1, d)))) = d" .
      with cs Inl False show ?thesis
        by (subst fetch_data_from.simps) (auto split: prod.splits)
    qed
  qed
qed

lemma save_podcast_keeps_ledger:
  "query_progress (snd (save_podcast pd d)) = query_progress d"
  by (simp add: save_podcast_def split: sum.splits)

lemma save_shows_keeps_ledger:
  "query_progress (snd (fst (snd (snd (save_shows (with_database search) items n (c, d))))))
     = query_progress d"
proof (induction items arbitrary: n d)
  case Nil
  show ?case by simp
next
  case (Cons item items)
  show ?case
  proof (cases "podcast_data_of item")
    case (Inl e)
    then show ?thesis by simp
  next
    case (Inr pd)
    obtain r d1 where s: "save_podcast pd d = (r, d1)"
      by (cases "save_podcast pd d")
    with save_podcast_keeps_ledger [of pd d] have q: "query_progress d1 = query_progress d"
      by simp
    from s have ds: "db_save_podcast (with_database search) pd (c, d) = (r, (c, d1))"
      by (simp add: with_database_def)
    show ?thesis
    proof (cases r)
      case (Inl e)
      with Inr ds q show ?thesis by simp
    next
      case r: (Inr u)
      from Cons [of "n + 1" d1] q Inr ds r show ?thesis
        by (auto split: prod.splits)
    qed
  qed
qed

lemma save_page_keeps_ledger:
  "query_progress (snd (fst (snd (snd (save_page (with_database search) results n (c, d))))))
     = query_progress d"
proof -
  have "query_progress d1 = query_progress d"
    if "save_shows (with_database search) items n (c, d) = (r, m, (c1, d1), calls)"
    for items r m c1 d1 calls
    using save_shows_keeps_ledger [of search items n c d] that by simp
  then show ?thesis
    by (auto simp: save_page_def split: sum.splits prod.splits)
qed

lemma loop_keeps_ledger:
  "query_progress (snd (fst (snd (process_query_loop (with_database search) q off n (c, d)))))
     = query_progress d"
proof (induction "with_database search" q off n "(c, d)" arbitrary: c d
    rule: process_query_loop.induct)
  case (1 query offset total_podcasts)
  let ?C = "with_database search"
  show ?case
  proof (cases "offset < 1000")
    case False
    then show ?thesis
      by (subst process_query_loop.simps) simp
  next
    case lt: True
    obtain r ca da callsa where f: "fetch_data ?C query offset limit (c, d) = (r, (ca, da), callsa)"
      by (cases "fetch_data ?C query offset limit (c, d)") auto
    with fetch_data_from_keeps_db [of 0 search query offset limit c d] have da: "da = d"
      by (simp add: fetch_data_def)
    show ?thesis
    proof (cases r)
      case (Inl e)
      with lt f da show ?thesis
        by (subst process_query_loop.simps) simp
    next
      case (Inr results)
      obtain rb nb cb db callsb where
        s: "save_page ?C results total_podcasts (ca, da) = (rb, nb, (cb, db), callsb)"
        by (cases "save_page ?C results total_podcasts (ca, da)") auto
      with save_page_keeps_ledger [of search results total_podcasts ca da] da
      have db: "query_progress db = query_progress d"
        by simp
      show ?thesis
      proof (cases "rb = Inr True")
        case False
        with lt f Inr s db show ?thesis
          by (subst process_query_loop.simps) (auto split: sum.splits bool.splits)
      next
        case True
        from 1 [OF lt f [symmetric] Inr refl s [symmetric] True refl refl refl]
        have "query_progress (snd (fst (snd (process_query_loop ?C query (offset + limit) nb
            (cb, db))))) = query_progress db" .
        with lt f Inr s db True show ?thesis
          by (subst process_query_loop.simps) (auto split: prod.splits)
      qed
    qed
  qed
qed

text \<open>
  C5: the calls of \<open>process_query\<close> are those of its loop followed by one
  \<open>mark_query_completed\<close>: the loop never marks, and the query is marked exactly once,
  as the last call, however the loop ended.  With the \<open>DatabaseManager\<close> the loop
  leaves the ledger as it was, and after \<open>process_query\<close> the query is completed.
\<close>

theorem process_query_marks_last:
  "snd (snd (process_query C query w)) =
     snd (snd (process_query_loop C query 0 0 w)) @ [MarkQueryCompleted query]
   \<and> marked_queries (snd (snd (process_query_loop C query 0 0 w))) = []
   \<and> marked_queries (snd (snd (process_query C query w))) = [query]
   \<and> query_progress (snd (fst (snd (process_query_loop (with_database search) query 0 0 (c, d)))))
       = query_progress d
   \<and> query_progress (snd (fst (snd (process_query (with_database search) query (c, d)))))
       = (query_progress d)(query \<mapsto> SInt 1)
   \<and> is_query_completed query (snd (fst (snd (process_query (with_database search) query (c, d)))))"
proof -
  have 1: "snd (snd (process_query C query w)) =
     snd (snd (process_query_loop C query 0 0 w)) @ [MarkQueryCompleted query]"
    by (rule process_query_calls)
  have 2: "marked_queries (snd (snd (process_query_loop C query 0 0 w))) = []"
    by (rule loop_readers_0(1))
  have 3: "marked_queries (snd (snd (process_query C query w))) = [query]"
    by (simp add: 1 2 marked_queries_append)
  note 4 = loop_keeps_ledger [of search query 0 0 c d]
  have 5: "query_progress (snd (fst (snd (process_query (with_database search) query (c, d)))))
       = (query_progress d)(query \<mapsto> SInt 1)"
    using 4 by (cases "process_query_loop (with_database search) query 0 0 (c, d)")
      (auto simp: process_query_def with_database_def mark_query_completed_def)
  from 5 have 6: "is_query_completed query
      (snd (fst (snd (process_query (with_database search) query (c, d)))))"
    by (simp add: is_query_completed_def)
  from 1 2 3 4 5 6 show ?thesis
    by blast
qed

subsection \<open>A failure of the store\<close>

lemma failed_saves_process_query:
  "failed_saves (snd (snd (process_query C query w))) \<noteq> [] \<Longrightarrow>
   \<exists>pre pd. snd (snd (process_query C query w))
       = pre @ [SavePodcast pd False, MarkQueryCompleted query] \<and> failed_saves pre = []"
proof -
  let ?l = "snd (snd (process_query_loop C query 0 0 w))"
  assume "failed_saves (snd (snd (process_query C query w))) \<noteq> []"
  then have "failed_saves ?l \<noteq> []"
    by (simp add: process_query_calls failed_saves_append)
  with loop_readers_0(2) [of C query 0 0 w] obtain pre pd where
    "?l = pre @ [SavePodcast pd False]" "failed_saves pre = []"
    unfolding failure_ends_def by blast
  then show ?thesis
    by (simp add: process_query_calls)
qed

lemma run_queries_all:
  assumes "\<forall>q w'. fst (db_mark_query_completed C q w') = Inr ()"
  shows "(\<exists>ns. fst (run_queries C queries w) = Inr ns \<and> length ns = length queries)
     \<and> marked_queries (snd (snd (run_queries C queries w))) = queries"
proof (induction queries arbitrary: w)
  case Nil
  show ?case by simp
next
  case (Cons q queries)
  obtain r w1 calls1 where p: "process_query C q w = (r, w1, calls1)"
    by (cases "process_query C q w") auto
  from process_query_result [of C q w] assms p obtain n where r: "r = Inr n"
    by (auto split: sum.splits)
  from process_query_marks [of C q w] p have m: "marked_queries calls1 = [q]"
    by simp
  obtain r2 w2 calls2 where rest: "run_queries C queries w1 = (r2, w2, calls2)"
    by (cases "run_queries C queries w1") auto
  with Cons [of w1] obtain ns where "r2 = Inr ns" "length ns = length queries"
    "marked_queries calls2 = queries"
    by auto
  with p r m rest show ?case
    by (simp add: marked_queries_append)
qed

text \<open>
  C8, as stated, fails: with a database manager whose \<open>save_podcast\<close> raises,
  \<open>process_query\<close> returns normally (with the count 0), and the run goes on to the next
  query.
\<close>

theorem save_failure_is_not_propagated:
  "fst (db_save_podcast failing_store_client show_one ()) = Inl Sqlite3Error
   \<and> fst (process_query failing_store_client ''abc'' ()) = Inr 0
   \<and> length (failed_saves (snd (snd (process_query failing_store_client ''abc'' ())))) = 1
   \<and> fst (run_queries failing_store_client [''abc'', ''abd''] ()) = Inr [0, 0]
   \<and> marked_queries (snd (snd (run_queries failing_store_client [''abc'', ''abd''] ())))
       = [''abc'', ''abd'']"
  by code_simp

text \<open>
  C8, amended: a failure of \<open>save_podcast\<close> is caught in \<open>process_query\<close>.  The failed
  save is the last call of the loop and is followed at once by \<open>mark_query_completed\<close>;
  \<open>process_query\<close> raises only what \<open>mark_query_completed\<close> raises and otherwise returns
  the number of saves that returned; so when marking does not fail, every query of the
  list is processed and marked, whatever \<open>save_podcast\<close> does.
\<close>

theorem save_failure_ends_query:
  "(failed_saves (snd (snd (process_query C query w))) \<noteq> [] \<longrightarrow>
      (\<exists>pre pd. snd (snd (process_query C query w))
          = pre @ [SavePodcast pd False, MarkQueryCompleted query] \<and> failed_saves pre = []))
   \<and> fst (process_query C query w) =
       (case fst (db_mark_query_completed C query (fst (snd (process_query_loop C query 0 0 w)))) of
          Inl e \<Rightarrow> Inl e
        | Inr u \<Rightarrow> Inr (int (length (successful_saves (snd (snd (process_query C query w)))))))
   \<and> ((\<forall>q w'. fst (db_mark_query_completed C q w') = Inr ()) \<longrightarrow>
        (\<exists>ns. fst (run_queries C queries w) = Inr ns \<and> length ns = length queries)
        \<and> marked_queries (snd (snd (run_queries C queries w))) = queries)"
  using failed_saves_process_query [of C query w] process_query_count [of C query w]
    run_queries_all [of C queries w]
  by blast

theorem save_failure_ends_query_witness:
  "failed_saves (snd (snd (process_query (store_failing_from 2 three_shows) ''abc'' 0))) \<noteq> []
   \<and> (\<exists>pre pd. snd (snd (process_query (store_failing_from 2 three_shows) ''abc'' 0))
          = pre @ [SavePodcast pd False, MarkQueryCompleted ''abc''] \<and> failed_saves pre = [])
   \<and> length (successful_saves (snd (snd (process_query (store_failing_from 2 three_shows)
        ''abc'' 0)))) = 2
   \<and> fst (process_query (store_failing_from 2 three_shows) ''abc'' 0) = Inr 2
   \<and> (\<exists>ns. fst (run_queries (store_failing_from 2 three_shows) [''abc'', ''abd''] 0) = Inr ns
         \<and> length ns = 2)
   \<and> marked_queries (snd (snd (run_queries (store_failing_from 2 three_shows)
        [''abc'', ''abd''] 0))) = [''abc'', ''abd'']"
proof -
  let ?C = "store_failing_from 2 three_shows"
  have 1: "failed_saves (snd (snd (process_query ?C ''abc'' 0))) \<noteq> []"
    by code_simp
  have 2: "\<forall>q w'. fst (db_mark_query_completed ?C q w') = Inr ()"
    by (simp add: store_failing_from_def)
  have 3: "fst (db_mark_query_completed ?C ''abc''
      (fst (snd (process_query_loop ?C ''abc'' 0 0 0)))) = Inr ()"
    using 2 by blast
  have 4: "length [''abc'', ''abd''] = 2"
    by simp
  have 5: "length (successful_saves (snd (snd (process_query ?C ''abc'' 0)))) = 2"
    by code_simp
  note t = save_failure_ends_query [of ?C "''abc''" 0 "[''abc'', ''abd'']"]
  from t 1 have a: "\<exists>pre pd. snd (snd (process_query ?C ''abc'' 0))
          = pre @ [SavePodcast pd False, MarkQueryCompleted ''abc''] \<and> failed_saves pre = []"
    by blast
  from t have "fst (process_query ?C ''abc'' 0) =
       (case fst (db_mark_query_completed ?C ''abc'' (fst (snd (process_query_loop ?C ''abc'' 0 0 0)))) of
          Inl e \<Rightarrow> Inl e
        | Inr u \<Rightarrow> Inr (int (length (successful_saves (snd (snd (process_query ?C ''abc'' 0)))))))"
    by blast
  then have c: "fst (process_query ?C ''abc'' 0) = Inr 2"
    unfolding 3 5 by simp
  from t 2 have "(\<exists>ns. fst (run_queries ?C [''abc'', ''abd''] 0) = Inr ns
        \<and> length ns = length [''abc'', ''abd''])
     \<and> marked_queries (snd (snd (run_queries ?C [''abc'', ''abd''] 0))) = [''abc'', ''abd'']"
    by blast
  then have b: "(\<exists>ns. fst (run_queries ?C [''abc'', ''abd''] 0) = Inr ns \<and> length ns = 2)
     \<and> marked_queries (snd (snd (run_queries ?C [''abc'', ''abd''] 0))) = [''abc'', ''abd'']"
    unfolding 4 .
  from 1 a 5 c b show ?thesis
    by blast
qed

subsection \<open>Queries that are already completed\<close>

lemma process_query_first_calls:
  "take 2 (snd (snd (process_query C query w))) = [FetchData query 0, Search query limit 0]"
proof -
  obtain r w1 calls1 where f: "fetch_data C query 0 limit w = (r, w1, calls1)"
    by (cases "fetch_data C query 0 limit w") auto
  from fetch_data_from_calls [of 0 C query 0 limit w] f obtain k where
    "calls1 = replicate k (Search query limit 0)" "1 \<le> k"
    by (auto simp: fetch_data_def max_tries_def)
  then obtain rest where c: "calls1 = Search query limit 0 # rest"
    by (cases k) auto
  have "\<exists>more. snd (snd (process_query_loop C query 0 0 w))
      = FetchData query 0 # Search query limit 0 # more"
    by (subst process_query_loop.simps) (auto simp: f c split: sum.splits prod.splits bool.splits)
  then show ?thesis
    by (auto simp: process_query_calls)
qed

lemma run_queries_first_calls:
  "take 2 (snd (snd (run_queries C (q # queries) w))) = [FetchData q 0, Search q limit 0]"
proof -
  obtain r w1 calls1 where p: "process_query C q w = (r, w1, calls1)"
    by (cases "process_query C q w") auto
  with process_query_first_calls [of C q w] have t: "take 2 calls1 = [FetchData q 0, Search q limit 0]"
    by simp
  then have "2 \<le> length calls1"
    by (metis length_Cons length_take list.size(3) min.cobounded1 numeral_2_eq_2)
  with t have "take 2 (calls1 @ more) = [FetchData q 0, Search q limit 0]" for more
    by simp
  with p t show ?thesis
    by (auto split: sum.splits prod.splits)
qed

text \<open>
  C1 does not hold of the code: \<open>main\<close> hands every query to \<open>process_query\<close>, and neither
  of them calls \<open>is_query_completed\<close>.  The first query of any list is fetched at offset
  0 whatever the ledger says; and with \<open>abc\<close> marked completed, a run over \<open>abc\<close> calls
  the fetcher for it and replaces the stored record of the show.
\<close>

theorem completed_query_is_fetched_again:
  "take 2 (snd (snd (run_queries C (q # queries) w))) = [FetchData q 0, Search q limit 0]
   \<and> is_query_completed ''abc'' completed_db
   \<and> (case run_queries (with_database (paging_search 50 [JDict show_one_renamed])) [''abc'']
             ((), completed_db) of
        (r, (c, d), calls) \<Rightarrow>
          r = Inr [1]
          \<and> calls = [FetchData ''abc'' 0, Search ''abc'' 50 0,
               SavePodcast [(''id'', JStr ''show1''), (''name'', JStr ''Second''),
                 (''description'', JNull), (''publisher'', JNull), (''total_episodes'', JNull),
                 (''explicit'', JNull), (''media_type'', JNull), (''available_markets'', JNull),
                 (''languages'', JNull), (''images'', JList [JDict []]),
                 (''external_urls'', JDict []), (''href'', JNull), (''market'', JStr ''US'')] True,
               FetchData ''abc'' 50, Search ''abc'' 50 50, MarkQueryCompleted ''abc'']
          \<and> podcasts completed_db = [[SText ''show1'', SText ''First'', SNull, SNull, SNull,
                 SNull, SNull, SText ''US, GB'', SNull, SText ''http://img/1'',
                 SText ''http://open/1'', SNull, SText ''US, GB'', SText ''US'']]
          \<and> podcasts d = [[SText ''show1'', SText ''Second'', SNull, SNull, SNull, SNull, SNull,
                 SNull, SNull, SNull, SNull, SNull, SNull, SText ''US'']])"
  by (rule conjI, rule run_queries_first_calls) code_simp

subsection \<open>Shows with missing fields\<close>

text \<open>
  C9 does not hold of the code: \<open>process_query\<close> always puts the keys \<open>images\<close> and
  \<open>external_urls\<close> into the dictionary, with \<open>None\<close> when the show has none, so the
  defaults of \<open>save_podcast\<close> are never used and \<open>None[0]\<close> raises \<open>TypeError\<close>.  For
  a show with an identifier and a name only, nothing is written, the loop ends, and the
  query is marked completed.
\<close>

theorem missing_images_fail_the_write:
  "podcast_data_of (JDict show_without_images) =
     Inr [(''id'', JStr ''show2''), (''name'', JStr ''Plain''),
          (''description'', JNull), (''publisher'', JNull), (''total_episodes'', JNull),
          (''explicit'', JNull), (''media_type'', JNull), (''available_markets'', JNull),
          (''languages'', JNull), (''images'', JNull), (''external_urls'', JNull),
          (''href'', JNull), (''market'', JStr ''US'')]
   \<and> fst (save_podcast [(''id'', JStr ''show2''), (''name'', JStr ''Plain''),
          (''description'', JNull), (''publisher'', JNull), (''total_episodes'', JNull),
          (''explicit'', JNull), (''media_type'', JNull), (''available_markets'', JNull),
          (''languages'', JNull), (''images'', JNull), (''external_urls'', JNull),
          (''href'', JNull), (''market'', JStr ''US'')] empty_db) = Inl TypeError
   \<and> (case process_query (with_database (paging_search 50 [JDict show_without_images])) ''abc''
             ((), empty_db) of
        (r, (c, d), calls) \<Rightarrow>
          r = Inr 0 \<and> podcasts d = [] \<and> is_query_completed ''abc'' d
          \<and> fetch_offsets calls = [0] \<and> length (failed_saves calls) = 1)"
  by code_simp

end
